theory Spec2Isabelle
  imports Main "HOL-Library.AList"
begin

section \<open>The configuration-language parser of \<^verbatim>\<open>config_parser.py\<close>\<close>

text \<open>
  The theory embeds the class \<^verbatim>\<open>ConfigParser\<close> of \<^verbatim>\<open>src/config_parser.py\<close>: its
  three fields become a record, every method a function that takes the parser state and
  returns what the method returns together with the state the method leaves behind, and
  every \<^verbatim>\<open>raise ParseError(...)\<close> a left injection.

  Text is a list of characters; a character of the model is a code point below 256. On
  those code points the character classes of Python are: \<^verbatim>\<open>str.isspace\<close> (used by
  \<^verbatim>\<open>str.strip\<close> and by \<^verbatim>\<open>\s\<close>) holds of 9 to 13, 28 to 32, 133 and 160, and \<^verbatim>\<open>\d\<close>
  holds of the ten ASCII digits.
\<close>

subsection \<open>Values and errors\<close>

text \<open>
  What the parser builds: Python \<^verbatim>\<open>int\<close>, \<^verbatim>\<open>float\<close>, \<^verbatim>\<open>str\<close> and \<^verbatim>\<open>dict\<close>. A dict keeps
  its keys in insertion order, so it is an association list, read with \<^const>\<open>map_of\<close> and
  written to with \<^const>\<open>AList.update\<close> (a present key keeps its place, a new key goes to
  the end); the table of constants is a dict as well, and its \<^verbatim>\<open>copy()\<close> is the list. A
  float keeps the decimal numeral that was handed to \<^verbatim>\<open>float()\<close>; the rounding to a
  binary64 is not part of the model.
\<close>

datatype val =
    VInt int
  | VFloat string
  | VText string
  | VMapping "(string \<times> val) list"

type_synonym config = "(string \<times> val) list"

text \<open>
  The seven messages of \<^verbatim>\<open>ParseError\<close>, in the order of the source: line 51 (content
  after the closing brace), line 54 (no opening brace), line 81 (closing line that is
  neither \<^verbatim>\<open>}\<close> nor \<^verbatim>\<open>}.\<close>), line 98 (constant declaration), line 133 (mapping entry),
  line 164 (number format, with the token) and line 186 (undefined constant, with the
  name). Every raise passes \<^verbatim>\<open>self.current_line + 1\<close>, which is never zero, so the
  message always carries the line number.
\<close>

datatype message =
    ExpectedEndOfFile
  | ExpectedOpeningBrace
  | ExpectedNestedEnd
  | InvalidConstantDeclaration
  | InvalidEntry
  | InvalidNumber string
  | UndefinedConstant string

datatype error = ParseError message nat

record ConfigParser =
  lines :: "string list"
  current_line :: nat
  constants :: "(string \<times> val) list"

definition init :: ConfigParser where
  "init = \<lparr>lines = [], current_line = 0, constants = []\<rparr>"

subsection \<open>Strings\<close>

definition is_space :: "char \<Rightarrow> bool" where
  "is_space c \<longleftrightarrow> c \<in> set [CHR 0x09, CHR 0x0A, CHR 0x0B, CHR 0x0C, CHR 0x0D,
     CHR 0x1C, CHR 0x1D, CHR 0x1E, CHR 0x1F, CHR 0x20, CHR 0x85, CHR 0xA0]"

definition is_digit :: "char \<Rightarrow> bool" where
  "is_digit c \<longleftrightarrow> (48::nat) \<le> of_char c \<and> of_char c \<le> (57::nat)"

text \<open>The classes \<^verbatim>\<open>[a-zA-Z_]\<close> and \<^verbatim>\<open>[a-zA-Z0-9_]\<close> of the three patterns.\<close>

definition is_ident_start :: "char \<Rightarrow> bool" where
  "is_ident_start c \<longleftrightarrow>
     ((97::nat) \<le> of_char c \<and> of_char c \<le> (122::nat)) \<or>
     ((65::nat) \<le> of_char c \<and> of_char c \<le> (90::nat)) \<or> c = CHR ''_''"

definition is_ident_char :: "char \<Rightarrow> bool" where
  "is_ident_char c \<longleftrightarrow> is_ident_start c \<or> is_digit c"

definition strip :: "string \<Rightarrow> string" where
  "strip s = rev (dropWhile is_space (rev (dropWhile is_space s)))"

definition startswith :: "string \<Rightarrow> string \<Rightarrow> bool" where
  "startswith s p \<longleftrightarrow> take (length p) s = p"

definition endswith :: "string \<Rightarrow> string \<Rightarrow> bool" where
  "endswith s p \<longleftrightarrow> length p \<le> length s \<and> drop (length s - length p) s = p"

text \<open>\<^verbatim>\<open>text.split('\n')\<close>: the empty text is one empty line.\<close>

fun split_nl :: "string \<Rightarrow> string list" where
  "split_nl [] = [[]]"
| "split_nl (c # cs) =
     (if c = CHR 0x0A then [] # split_nl cs
      else (case split_nl cs of [] \<Rightarrow> [[c]] | l # ls \<Rightarrow> (c # l) # ls))"

text \<open>The slices \<^verbatim>\<open>value[2:-2]\<close> and \<^verbatim>\<open>value[1:-1]\<close>; both are empty on a short string.\<close>

definition slice_2_2 :: "string \<Rightarrow> string" where
  "slice_2_2 s = drop 2 (take (length s - 2) s)"

definition slice_1_1 :: "string \<Rightarrow> string" where
  "slice_1_1 s = drop 1 (take (length s - 1) s)"

subsection \<open>The regular expressions\<close>

text \<open>
  The lines never hold a pattern to choose from: in each of the four patterns a greedy
  repetition is followed by a character outside its class, so the repetition takes all it
  can, except for \<^verbatim>\<open>\s*(.+)\<close>, where the white space gives back one character when
  nothing else is left for the group. The dot matches every character but the line feed,
  and \<^verbatim>\<open>$\<close> matches at the end and before a line feed that ends the string.

  \<open>before_dollar\<close> is the text that a pattern ending in \<^verbatim>\<open>$\<close> has to match completely.
\<close>

definition before_dollar :: "string \<Rightarrow> string" where
  "before_dollar s = (if s \<noteq> [] \<and> last s = CHR 0x0A then butlast s else s)"

text \<open>
  The tail \<^verbatim>\<open>\s*(.+)X$\<close> of the declaration pattern (\<open>X\<close> the semicolon) and of the
  entry pattern (\<open>X\<close> the full stop): the group that is captured.
\<close>

definition capture_tail :: "char \<Rightarrow> string \<Rightarrow> string option" where
  "capture_tail x rest =
     (let t = before_dollar rest in
      if t = [] \<or> last t \<noteq> x then None
      else
        let body = butlast t;
            g0 = dropWhile is_space body;
            g = (if g0 = [] then (if body = [] then [] else [last body]) else g0)
        in if g = [] \<or> CHR 0x0A \<in> set g then None else Some g)"

text \<open>
  The head \<^verbatim>\<open>([a-zA-Z_][a-zA-Z0-9_]*)\s*\<close> shared by the three line patterns: the
  identifier and what follows the white space after it.
\<close>

definition match_ident :: "string \<Rightarrow> (string \<times> string) option" where
  "match_ident s =
     (case s of
        [] \<Rightarrow> None
      | c # _ \<Rightarrow>
          if is_ident_start c
          then Some (takeWhile is_ident_char s, dropWhile is_space (dropWhile is_ident_char s))
          else None)"

text \<open>\<^verbatim>\<open>^def\s+([a-zA-Z_][a-zA-Z0-9_]*)\s*=\s*(.+);$\<close>, line 95: name and value.\<close>

definition match_constant_declaration :: "string \<Rightarrow> (string \<times> string) option" where
  "match_constant_declaration line =
     (if startswith line ''def'' \<and> drop 3 line \<noteq> [] \<and> is_space (hd (drop 3 line))
      then
        (case match_ident (dropWhile is_space (drop 3 line)) of
           None \<Rightarrow> None
         | Some (name, r) \<Rightarrow>
             (case r of
                [] \<Rightarrow> None
              | c # rest \<Rightarrow>
                  if c = CHR ''=''
                  then (case capture_tail (CHR '';'') rest of
                          None \<Rightarrow> None
                        | Some v \<Rightarrow> Some (name, v))
                  else None))
      else None)"

text \<open>\<^verbatim>\<open>^([a-zA-Z_][a-zA-Z0-9_]*)\s*->\s*(.+)\.$\<close>, line 114: key and value.\<close>

definition match_entry :: "string \<Rightarrow> (string \<times> string) option" where
  "match_entry line =
     (case match_ident line of
        None \<Rightarrow> None
      | Some (key, r) \<Rightarrow>
          if startswith r ''->''
          then (case capture_tail (CHR ''.'') (drop 2 r) of
                  None \<Rightarrow> None
                | Some v \<Rightarrow> Some (key, v))
          else None)"

text \<open>\<^verbatim>\<open>^([a-zA-Z_][a-zA-Z0-9_]*)\s*->\s*\{$\<close>, line 123: the key.\<close>

definition match_nested :: "string \<Rightarrow> string option" where
  "match_nested line =
     (case match_ident line of
        None \<Rightarrow> None
      | Some (key, r) \<Rightarrow>
          if startswith r ''->'' \<and> before_dollar (dropWhile is_space (drop 2 r)) = ''{''
          then Some key
          else None)"

text \<open>\<^verbatim>\<open>^-?\d+(\.\d+)?$\<close>, line 158, on the text before the dollar.\<close>

definition is_numeral :: "string \<Rightarrow> bool" where
  "is_numeral s \<longleftrightarrow>
     (let u = (if startswith s ''-'' then drop 1 s else s);
          r = dropWhile is_digit u
      in takeWhile is_digit u \<noteq> [] \<and>
         (r = [] \<or> (hd r = CHR ''.'' \<and> tl r \<noteq> [] \<and> list_all is_digit (tl r))))"

text \<open>\<^verbatim>\<open>int(value)\<close> on a token that matched without a dot.\<close>

definition digits_value :: "string \<Rightarrow> nat" where
  "digits_value ds = foldl (\<lambda>n c. 10 * n + (of_char c - 48)) 0 ds"

definition to_int :: "string \<Rightarrow> int" where
  "to_int s = (if startswith s ''-'' then - int (digits_value (drop 1 s)) else int (digits_value s))"

subsection \<open>The value reader's leaves\<close>

definition parse_string :: "string \<Rightarrow> val" where
  "parse_string v = VText (slice_2_2 v)"

definition parse_number :: "ConfigParser \<Rightarrow> string \<Rightarrow> error + val" where
  "parse_number st v =
     (if is_numeral (before_dollar v)
      then (if CHR ''.'' \<in> set v then Inr (VFloat (before_dollar v))
            else Inr (VInt (to_int (before_dollar v))))
      else Inl (ParseError (InvalidNumber v) (current_line st + 1)))"

definition parse_constant :: "ConfigParser \<Rightarrow> string \<Rightarrow> error + val" where
  "parse_constant st v =
     (let const_name = slice_1_1 v in
      case map_of (constants st) const_name of
        None \<Rightarrow> Inl (ParseError (UndefinedConstant const_name) (current_line st + 1))
      | Some x \<Rightarrow> Inr x)"

subsection \<open>The block reader, the entries and the values\<close>

text \<open>
  \<open>parse_block_loop\<close> is the \<^verbatim>\<open>while\<close> of \<^verbatim>\<open>parse_block\<close> (lines 63 to 87), with the
  local \<^verbatim>\<open>config\<close> as its accumulator. \<^verbatim>\<open>parse_value\<close> and the methods it calls assign to
  no field of \<^verbatim>\<open>self\<close>, so they return the value alone; \<^verbatim>\<open>parse_dict\<close> builds the second
  parser and drops it after its \<^verbatim>\<open>parse_block\<close>.
\<close>

definition advance :: "ConfigParser \<Rightarrow> ConfigParser" where
  "advance st = st\<lparr>current_line := current_line st + 1\<rparr>"

function parse_block :: "ConfigParser \<Rightarrow> error + (config \<times> ConfigParser)"
  and parse_block_loop :: "config \<Rightarrow> ConfigParser \<Rightarrow> error + (config \<times> ConfigParser)"
  and parse_constant_declaration :: "string \<Rightarrow> ConfigParser \<Rightarrow> error + ConfigParser"
  and parse_entry :: "config \<Rightarrow> string \<Rightarrow> ConfigParser \<Rightarrow> error + (config \<times> ConfigParser)"
  and parse_value :: "ConfigParser \<Rightarrow> string \<Rightarrow> error + val"
  and parse_dict :: "ConfigParser \<Rightarrow> string \<Rightarrow> error + val"
where
  "parse_block st = parse_block_loop [] st"
| "parse_block_loop config st =
     (if current_line st < length (lines st) then
        let line = strip (lines st ! current_line st) in
        if line = [] \<or> startswith line ''*>'' then parse_block_loop config (advance st)
        else if startswith line ''def'' then
          (case parse_constant_declaration line st of
             Inl e \<Rightarrow> Inl e
           | Inr st' \<Rightarrow> parse_block_loop config st')
        else if startswith line ''{'' then parse_block (advance st)
        else if startswith line ''}'' then
          (if line \<noteq> ''}.'' \<and> line \<noteq> ''}''
           then Inl (ParseError ExpectedNestedEnd (current_line st + 1))
           else Inr (config, advance st))
        else
          (case parse_entry config line st of
             Inl e \<Rightarrow> Inl e
           | Inr (config', st') \<Rightarrow> parse_block_loop config' (advance st'))
      else Inr (config, st))"
| "parse_constant_declaration line st =
     (case match_constant_declaration line of
        None \<Rightarrow> Inl (ParseError InvalidConstantDeclaration (current_line st + 1))
      | Some (name, v) \<Rightarrow>
          (case parse_value st (strip v) of
             Inl e \<Rightarrow> Inl e
           | Inr parsed_value \<Rightarrow>
               Inr (advance (st\<lparr>constants := AList.update name parsed_value (constants st)\<rparr>))))"
| "parse_entry current_dict line st =
     (case match_entry line of
        Some (key, v) \<Rightarrow>
          (case parse_value st (strip v) of
             Inl e \<Rightarrow> Inl e
           | Inr parsed_value \<Rightarrow> Inr (AList.update key parsed_value current_dict, st))
      | None \<Rightarrow>
          (case match_nested line of
             Some key \<Rightarrow>
               (case parse_block (advance st) of
                  Inl e \<Rightarrow> Inl e
                | Inr (nested_config, st') \<Rightarrow>
                    Inr (AList.update key (VMapping nested_config) current_dict, st'))
           | None \<Rightarrow> Inl (ParseError InvalidEntry (current_line st + 1))))"
| "parse_value st v =
     (if startswith v ''[['' \<and> endswith v '']]'' then Inr (parse_string v)
      else if startswith v ''{'' \<and> endswith v ''}'' then parse_dict st v
      else if startswith v ''|'' \<and> endswith v ''|'' then parse_constant st v
      else parse_number st v)"
| "parse_dict st v =
     (let dict_content = strip (slice_1_1 v);
          nested_parser = \<lparr>lines = split_nl dict_content, current_line = 0,
                           constants = constants st\<rparr>
      in case parse_block nested_parser of
           Inl e \<Rightarrow> Inl e
         | Inr (nested_config, _) \<Rightarrow> Inr (VMapping nested_config))"
  by pat_completeness auto

subsection \<open>Termination of the readers\<close>

text \<open>
  The readers call each other, and the loop of the block reader goes on from the state
  that an entry or a declaration returns. So termination needs, beforehand, that a reader
  which returns leaves the lines alone and never moves the cursor back. The weight of a
  state is the text from the cursor on, one more for every line.
\<close>

definition remaining :: "ConfigParser \<Rightarrow> nat" where
  "remaining st = sum_list (map (\<lambda>l. Suc (length l)) (drop (current_line st) (lines st)))"

lemma split_nl_nonempty: "split_nl s \<noteq> []"
  by (induction s) (auto split: list.splits)

lemma split_nl_weight: "sum_list (map (\<lambda>l. Suc (length l)) (split_nl s)) = Suc (length s)"
proof (induction s)
  case Nil
  show ?case by simp
next
  case (Cons c cs)
  obtain l ls where r: "split_nl cs = l # ls"
    using split_nl_nonempty [of cs] by (cases "split_nl cs") auto
  with Cons show ?case by auto
qed

lemma length_strip_le: "length (strip s) \<le> length s"
proof -
  have "length (dropWhile is_space (rev (dropWhile is_space s))) \<le> length (rev (dropWhile is_space s))"
    by (rule length_dropWhile_le)
  also have "\<dots> \<le> length s" by (simp add: length_dropWhile_le)
  finally show ?thesis by (simp add: strip_def)
qed

lemma capture_tail_length:
  assumes "capture_tail x rest = Some g"
  shows "Suc (length g) \<le> length rest"
proof -
  let ?t = "before_dollar rest"
  have t: "?t \<noteq> []" "last ?t = x" using assms by (auto simp: capture_tail_def Let_def split: if_splits)
  have lt: "length ?t \<le> length rest" by (simp add: before_dollar_def)
  let ?body = "butlast ?t"
  have lb: "Suc (length ?body) = length ?t" using t by simp
  have "length g \<le> length ?body"
  proof (cases "dropWhile is_space ?body = []")
    case True
    then have "?body \<noteq> []" and "g = [last ?body]"
      using assms t by (auto simp: capture_tail_def Let_def split: if_splits)
    then show ?thesis by (cases ?body) auto
  next
    case False
    then have "g = dropWhile is_space ?body"
      using assms t by (auto simp: capture_tail_def Let_def split: if_splits)
    then show ?thesis using length_dropWhile_le [of is_space ?body] by simp
  qed
  with lb lt show ?thesis by linarith
qed

lemma match_ident_length:
  assumes "match_ident s = Some (k, r)"
  shows "Suc (length r) \<le> length s"
proof -
  obtain c cs where s: "s = c # cs" and c: "is_ident_start c"
    using assms by (cases s) (auto simp: match_ident_def split: if_splits)
  have r: "r = dropWhile is_space (dropWhile is_ident_char s)"
    using assms s c by (simp add: match_ident_def)
  have "dropWhile is_ident_char s = dropWhile is_ident_char cs"
    using s c by (simp add: is_ident_char_def)
  then have "length r \<le> length cs"
    using r length_dropWhile_le [of is_space "dropWhile is_ident_char cs"]
      length_dropWhile_le [of is_ident_char cs] by simp
  then show ?thesis using s by simp
qed

lemma match_entry_length:
  assumes "match_entry line = Some (k, v)"
  shows "length v + 2 \<le> length line"
proof -
  obtain key r where m: "match_ident line = Some (key, r)" and sw: "startswith r ''->''"
    and c: "capture_tail (CHR ''.'') (drop 2 r) = Some v"
    using assms by (auto simp: match_entry_def split: option.splits if_splits)
  from match_ident_length [OF m] capture_tail_length [OF c] show ?thesis by simp
qed

lemma match_constant_declaration_length:
  assumes "match_constant_declaration line = Some (k, v)"
  shows "length v + 2 \<le> length line"
proof -
  obtain r rest where m: "match_ident (dropWhile is_space (drop 3 line)) = Some (k, r)"
    and r: "r = CHR ''='' # rest" and c: "capture_tail (CHR '';'') rest = Some v"
    using assms by (auto simp: match_constant_declaration_def split: option.splits if_splits list.splits)
  have "length (dropWhile is_space (drop 3 line)) \<le> length line"
    using length_dropWhile_le [of is_space "drop 3 line"] by simp
  with match_ident_length [OF m] capture_tail_length [OF c] r show ?thesis by simp
qed

lemma remaining_advance:
  "current_line st < length (lines st) \<Longrightarrow>
   remaining st = Suc (length (lines st ! current_line st)) + remaining (advance st)"
  by (simp add: remaining_def advance_def Cons_nth_drop_Suc [symmetric])

lemma weight_drop_mono:
  "n \<le> m \<Longrightarrow> sum_list (map (\<lambda>l. Suc (length l)) (drop m xs))
     \<le> sum_list (map (\<lambda>l. Suc (length l)) (drop n (xs :: string list)))"
proof -
  assume "n \<le> m"
  then have d: "drop m xs = drop (m - n) (drop n xs)" by simp
  have "sum_list (map (\<lambda>l. Suc (length l)) (drop n xs)) =
        sum_list (map (\<lambda>l. Suc (length l)) (take (m - n) (drop n xs))) +
        sum_list (map (\<lambda>l. Suc (length l)) (drop (m - n) (drop n xs)))"
    by (metis append_take_drop_id map_append sum_list_append)
  then show ?thesis unfolding d by linarith
qed

lemma remaining_mono:
  "lines st' = lines st \<Longrightarrow> current_line st \<le> current_line st' \<Longrightarrow> remaining st' \<le> remaining st"
  by (simp add: remaining_def weight_drop_mono)

abbreviation (input) pdom where
  "pdom \<equiv> parse_block_parse_block_loop_parse_constant_declaration_parse_entry_parse_value_parse_dict_dom"

lemma cursor_partial:
  "pdom (Inl (Inl st)) \<Longrightarrow>
     (\<forall>c st'. parse_block st = Inr (c, st') \<longrightarrow> lines st' = lines st \<and> current_line st \<le> current_line st')"
  "pdom (Inl (Inr (Inl (config, st)))) \<Longrightarrow>
     (\<forall>c st'. parse_block_loop config st = Inr (c, st') \<longrightarrow> lines st' = lines st \<and> current_line st \<le> current_line st')"
  "pdom (Inl (Inr (Inr (line, st)))) \<Longrightarrow>
     (\<forall>st'. parse_constant_declaration line st = Inr st' \<longrightarrow> lines st' = lines st \<and> current_line st' = Suc (current_line st))"
  "pdom (Inr (Inl (current_dict, line, st))) \<Longrightarrow>
     (\<forall>c st'. parse_entry current_dict line st = Inr (c, st') \<longrightarrow> lines st' = lines st \<and> current_line st \<le> current_line st')"
  "pdom (Inr (Inr (Inl (st, v)))) \<Longrightarrow> True"
  "pdom (Inr (Inr (Inr (st, v)))) \<Longrightarrow> True"
proof (induct st and config st and line st and current_dict line st and st v and st v
    rule: parse_block_parse_block_loop_parse_constant_declaration_parse_entry_parse_value_parse_dict.pinduct)
  case (1 st)
  show ?case unfolding parse_block.psimps [OF 1(1)] by (rule 1(2))
next
  case (2 config st)
  note eq = parse_block_loop.psimps [OF 2(1)]
  show ?case
  proof (intro allI impI)
    fix c st'
    assume r: "parse_block_loop config st = Inr (c, st')"
    show "lines st' = lines st \<and> current_line st \<le> current_line st'"
    proof (cases "current_line st < length (lines st)")
      case False
      with r eq show ?thesis by simp
    next
      case lt: True
      define line where "line = strip (lines st ! current_line st)"
      consider (skip) "line = [] \<or> startswith line ''*>''"
        | (decl) "\<not> (line = [] \<or> startswith line ''*>'')" "startswith line ''def''"
        | (open_brace) "\<not> (line = [] \<or> startswith line ''*>'')" "\<not> startswith line ''def''"
            "startswith line ''{''"
        | (close_brace) "\<not> (line = [] \<or> startswith line ''*>'')" "\<not> startswith line ''def''"
            "\<not> startswith line ''{''" "startswith line ''}''"
        | (entry) "\<not> (line = [] \<or> startswith line ''*>'')" "\<not> startswith line ''def''"
            "\<not> startswith line ''{''" "\<not> startswith line ''}''"
        by blast
      then show ?thesis
      proof cases
        case skip
        then have "parse_block_loop config (advance st) = Inr (c, st')"
          using r eq lt by (simp add: line_def)
        with 2(2) [OF lt line_def skip] show ?thesis by (simp add: advance_def)
      next
        case decl
        then obtain b where b: "parse_constant_declaration line st = Inr b"
          and l: "parse_block_loop config b = Inr (c, st')"
          using r eq lt by (simp add: line_def [symmetric] split: sum.splits)
        from 2(3) [OF lt line_def decl] b have "lines b = lines st" "current_line b = Suc (current_line st)"
          by simp_all
        moreover from 2(4) [OF lt line_def decl b] l
        have "lines st' = lines b" "current_line b \<le> current_line st'" by simp_all
        ultimately show ?thesis by simp
      next
        case open_brace
        then have "parse_block (advance st) = Inr (c, st')"
          using r eq lt by (simp add: line_def [symmetric])
        with 2(5) [OF lt line_def open_brace] show ?thesis by (simp add: advance_def)
      next
        case close_brace
        then have "st' = advance st"
          using r eq lt by (simp add: line_def [symmetric] split: if_splits)
        then show ?thesis by (simp add: advance_def)
      next
        case entry
        then obtain cfg y where b: "parse_entry config line st = Inr (cfg, y)"
          and l: "parse_block_loop cfg (advance y) = Inr (c, st')"
          using r eq lt by (simp add: line_def [symmetric] split: sum.splits prod.splits)
        from 2(6) [OF lt line_def entry] b have "lines y = lines st" "current_line st \<le> current_line y"
          by simp_all
        moreover from 2(7) [OF lt line_def entry b refl] l
        have "lines st' = lines (advance y)" "current_line (advance y) \<le> current_line st'" by simp_all
        ultimately show ?thesis by (simp add: advance_def)
      qed
    qed
  qed
next
  case (3 line st)
  note eq = parse_constant_declaration.psimps [OF 3(1)]
  show ?case
    by (auto simp: eq advance_def split: option.splits sum.splits)
next
  case (4 current_dict line st)
  note eq = parse_entry.psimps [OF 4(1)]
  show ?case
  proof (intro allI impI)
    fix c st'
    assume r: "parse_entry current_dict line st = Inr (c, st')"
    show "lines st' = lines st \<and> current_line st \<le> current_line st'"
    proof (cases "match_entry line")
      case (Some kv)
      with r eq show ?thesis by (auto split: sum.splits prod.splits)
    next
      case None
      then obtain key where k: "match_nested line = Some key"
        using r eq by (auto split: option.splits)
      then obtain n where "parse_block (advance st) = Inr (n, st')"
        using r eq None by (auto split: sum.splits)
      with 4(2) [OF None k] show ?thesis by (simp add: advance_def)
    qed
  qed
next
  case 5 show ?case by simp
next
  case 6 show ?case by simp
qed


fun call_weight ::
  "(ConfigParser + (config \<times> ConfigParser) + (string \<times> ConfigParser)) +
   ((config \<times> string \<times> ConfigParser) + (ConfigParser \<times> string) + (ConfigParser \<times> string)) \<Rightarrow> nat"
where
  "call_weight (Inl (Inl st)) = 4 * remaining st + 3"
| "call_weight (Inl (Inr (Inl (config, st)))) = 4 * remaining st + 2"
| "call_weight (Inl (Inr (Inr (line, st)))) = 4 * length line + 5"
| "call_weight (Inr (Inl (current_dict, line, st))) = 4 * (remaining (advance st) + length line) + 5"
| "call_weight (Inr (Inr (Inl (st, v)))) = 4 * length v + 9"
| "call_weight (Inr (Inr (Inr (st, v)))) = 4 * length v + 8"

lemma remaining_advance_less:
  "current_line st < length (lines st) \<Longrightarrow>
   length (strip (lines st ! current_line st)) + remaining (advance st) < remaining st"
  using length_strip_le [of "lines st ! current_line st"] by (simp add: remaining_advance)

lemma remaining_nested_parser:
  "remaining \<lparr>lines = split_nl s, current_line = 0, constants = cs\<rparr> = Suc (length s)"
  by (simp add: remaining_def split_nl_weight)

lemma length_slice_1_1: "length (slice_1_1 v) = length v - 2"
  by (simp add: slice_1_1_def)

lemma readers_dom: "All pdom"
proof (relation "measure call_weight", simp_all, goal_cases)
  case (1 st x)
  with remaining_advance_less [of st] show ?case by simp
next
  case (2 st x)
  with remaining_advance_less [of st] show ?case by simp
next
  case (3 st x b)
  from cursor_partial(3) [OF 3(6)] 3(5)
  have "lines b = lines st" "current_line b = Suc (current_line st)" by simp_all
  then have "remaining b = remaining (advance st)" by (simp add: remaining_def advance_def)
  with remaining_advance_less [of st] 3(1) show ?case by simp
next
  case (4 st x)
  with remaining_advance_less [of st] show ?case by simp
next
  case (5 st x)
  with remaining_advance_less [of st] show ?case by simp
next
  case (6 config st x b xa y)
  from cursor_partial(4) [OF 6(9)] 6(7) 6(8)
  have "lines y = lines st" "current_line st \<le> current_line y" by auto
  then have "remaining (advance y) \<le> remaining (advance st)"
    by (intro remaining_mono) (simp_all add: advance_def)
  with remaining_advance_less [of st] 6(1) show ?case by simp
next
  case (7 line x2 x y)
  then have "match_constant_declaration line = Some (x, y)" by simp
  from match_constant_declaration_length [OF this] length_strip_le [of y] show ?case by simp
next
  case (8 line st x2 x y)
  then have "match_entry line = Some (x, y)" by simp
  from match_entry_length [OF this] length_strip_le [of y] show ?case by simp
next
  case (9 st v x xa)
  from length_strip_le [of "slice_1_1 v"] show ?case
    by (simp add: remaining_nested_parser length_slice_1_1)
qed

termination parse_block
  by (rule readers_dom)


declare parse_block.simps [simp del] parse_block_loop.simps [simp del]
  parse_constant_declaration.simps [simp del] parse_entry.simps [simp del]
  parse_value.simps [simp del] parse_dict.simps [simp del]

subsection \<open>The driver\<close>

text \<open>
  \<open>parse_trailing\<close> is the inner \<^verbatim>\<open>while\<close> of \<^verbatim>\<open>parse\<close> (lines 45 to 52), which runs
  once the block reader has returned; \<open>parse_loop\<close> is the outer one (lines 34 to 56).
  \<^verbatim>\<open>parse\<close> resets the lines and the cursor and keeps the constants of the object.
\<close>

function parse_trailing :: "config \<Rightarrow> ConfigParser \<Rightarrow> error + (config \<times> ConfigParser)" where
  "parse_trailing config st =
     (if current_line st < length (lines st) then
        let line = strip (lines st ! current_line st) in
        if line = [] \<or> startswith line ''*>'' then parse_trailing config (advance st)
        else Inl (ParseError ExpectedEndOfFile (current_line st + 1))
      else Inr (config, st))"
  by pat_completeness auto

lemma parse_trailing_dom_all: "All parse_trailing_dom"
  by (relation "measure (\<lambda>(config, st). length (lines st) - current_line st)")
    (auto simp: advance_def)

termination parse_trailing
  by (rule parse_trailing_dom_all)

lemma parse_constant_declaration_cursor:
  "parse_constant_declaration line st = Inr st' \<Longrightarrow>
   lines st' = lines st \<and> current_line st' = Suc (current_line st)"
  by (auto simp: parse_constant_declaration.simps advance_def split: option.splits sum.splits)

function parse_loop :: "ConfigParser \<Rightarrow> error + (config \<times> ConfigParser)" where
  "parse_loop st =
     (if current_line st < length (lines st) then
        let line = strip (lines st ! current_line st) in
        if line = [] \<or> startswith line ''*>'' then parse_loop (advance st)
        else if startswith line ''def'' then
          (case parse_constant_declaration line st of
             Inl e \<Rightarrow> Inl e
           | Inr st' \<Rightarrow> parse_loop st')
        else if startswith line ''{'' then
          (case parse_block (advance st) of
             Inl e \<Rightarrow> Inl e
           | Inr (config, st') \<Rightarrow> parse_trailing config st')
        else Inl (ParseError ExpectedOpeningBrace (current_line st + 1))
      else Inr ([], st))"
  by pat_completeness auto

lemma parse_loop_dom_all: "All parse_loop_dom"
  by (relation "measure (\<lambda>st. length (lines st) - current_line st)")
    (auto simp: advance_def dest!: parse_constant_declaration_cursor)

termination parse_loop
  by (rule parse_loop_dom_all)

declare parse_trailing.simps [simp del] parse_loop.simps [simp del]

definition parse :: "ConfigParser \<Rightarrow> string \<Rightarrow> error + (config \<times> ConfigParser)" where
  "parse st text = parse_loop (st\<lparr>lines := split_nl text, current_line := 0\<rparr>)"

text \<open>
  What \<^verbatim>\<open>main\<close> does with the text of the file (lines 205 to 207): a parser fresh from
  \<^verbatim>\<open>__init__\<close>, and the dict that its \<^verbatim>\<open>parse\<close> returns.
\<close>

definition parse_config :: "string \<Rightarrow> error + config" where
  "parse_config text = (case parse init text of Inl e \<Rightarrow> Inl e | Inr (config, _) \<Rightarrow> Inr config)"

text \<open>The test \<^verbatim>\<open>not line or line.startswith("*>")\<close> of the three loops, on the raw line.\<close>

definition blank_or_comment :: "string \<Rightarrow> bool" where
  "blank_or_comment l \<longleftrightarrow> strip l = [] \<or> startswith (strip l) ''*>''"

section \<open>Properties\<close>

subsection \<open>Documents without a block\<close>

lemma at_end_current_line:
  "length (lines st) \<le> current_line st \<Longrightarrow>
   st\<lparr>current_line := max (current_line st) (length (lines st))\<rparr> = st"
  by (simp add: max_def)

lemma advance_to_end:
  "current_line st < length (lines st) \<Longrightarrow>
   (advance st)\<lparr>current_line := max (current_line (advance st)) (length (lines (advance st)))\<rparr>
     = st\<lparr>current_line := max (current_line st) (length (lines st))\<rparr>"
  by (simp add: advance_def max_def)

lemma parse_loop_blank:
  "\<forall>l \<in> set (drop (current_line st) (lines st)). blank_or_comment l \<Longrightarrow>
   parse_loop st = Inr ([], st\<lparr>current_line := max (current_line st) (length (lines st))\<rparr>)"
proof (induction "length (lines st) - current_line st" arbitrary: st)
  case 0
  then have "length (lines st) \<le> current_line st" by simp
  then show ?case by (simp add: parse_loop.simps at_end_current_line)
next
  case (Suc n)
  then have lt: "current_line st < length (lines st)" by simp
  then have "lines st ! current_line st \<in> set (drop (current_line st) (lines st))"
    by (metis Cons_nth_drop_Suc list.set_intros(1))
  with Suc.prems have b: "blank_or_comment (lines st ! current_line st)" by blast
  have "drop (current_line (advance st)) (lines (advance st)) = tl (drop (current_line st) (lines st))"
    by (simp add: advance_def drop_Suc tl_drop)
  then have rest: "\<forall>l \<in> set (drop (current_line (advance st)) (lines (advance st))). blank_or_comment l"
    using Suc.prems by (metis list.set_sel(2) tl_Nil)
  have n: "n = length (lines (advance st)) - current_line (advance st)"
    using Suc.hyps(2) by (simp add: advance_def)
  have "parse_loop st = parse_loop (advance st)"
    using lt b by (subst parse_loop.simps) (simp add: blank_or_comment_def Let_def)
  also have "\<dots> = Inr ([], (advance st)\<lparr>current_line :=
      max (current_line (advance st)) (length (lines (advance st)))\<rparr>)"
    by (rule Suc.hyps(1) [OF n rest])
  finally show ?case by (simp add: advance_to_end [OF lt])
qed

text \<open>
  C8. A text that holds only blank lines and comment lines (the empty text is one blank
  line) is parsed without an error, and the mapping returned is empty: \<^verbatim>\<open>parse\<close> runs
  the cursor to the end of the lines and returns \<^verbatim>\<open>{}\<close>.
\<close>

theorem blank_document_parses_to_empty_mapping:
  assumes "list_all blank_or_comment (split_nl text)"
  shows "parse st text =
           Inr ([], st\<lparr>lines := split_nl text, current_line := length (split_nl text)\<rparr>) \<and>
         parse_config text = Inr []"
proof -
  have run: "parse s text =
      Inr ([], s\<lparr>lines := split_nl text, current_line := length (split_nl text)\<rparr>)" for s
  proof -
    let ?s = "s\<lparr>lines := split_nl text, current_line := 0\<rparr>"
    have "parse_loop ?s =
        Inr ([], ?s\<lparr>current_line := max (current_line ?s) (length (lines ?s))\<rparr>)"
      by (rule parse_loop_blank) (use assms in \<open>simp add: list_all_iff\<close>)
    then show ?thesis by (simp add: parse_def)
  qed
  from run [of init] have "parse_config text = Inr []"
    by (simp add: parse_config_def)
  with run [of st] show ?thesis by simp
qed

theorem blank_document_parses_to_empty_mapping_witness:
  "list_all blank_or_comment (split_nl ''*> one\<newline>\<newline>   *> two\<newline>'') \<and>
   parse_config ''*> one\<newline>\<newline>   *> two\<newline>'' = Inr [] \<and>
   list_all blank_or_comment (split_nl '''') \<and> parse_config '''' = Inr []"
proof -
  have h1: "list_all blank_or_comment (split_nl ''*> one\<newline>\<newline>   *> two\<newline>'')"
    by code_simp
  have h2: "list_all blank_or_comment (split_nl '''')"
    by code_simp
  from blank_document_parses_to_empty_mapping [OF h1, of init]
    blank_document_parses_to_empty_mapping [OF h2, of init] h1 h2
  show ?thesis by blast
qed


subsection \<open>One step of the loops\<close>

lemma startswith_Cons [simp]:
  "startswith s [] \<longleftrightarrow> True"
  "startswith [] (p # ps) \<longleftrightarrow> False"
  "startswith (c # cs) (p # ps) \<longleftrightarrow> c = p \<and> startswith cs ps"
  by (auto simp: startswith_def)

lemma parse_block_loop_end:
  "length (lines st) \<le> current_line st \<Longrightarrow> parse_block_loop config st = Inr (config, st)"
  by (subst parse_block_loop.simps) simp

lemma parse_block_loop_skip:
  "current_line st < length (lines st) \<Longrightarrow> blank_or_comment (lines st ! current_line st) \<Longrightarrow>
   parse_block_loop config st = parse_block_loop config (advance st)"
  by (subst parse_block_loop.simps) (simp add: blank_or_comment_def Let_def)

lemma parse_block_loop_declaration:
  "current_line st < length (lines st) \<Longrightarrow> startswith (strip (lines st ! current_line st)) ''def'' \<Longrightarrow>
   parse_block_loop config st =
     (case parse_constant_declaration (strip (lines st ! current_line st)) st of
        Inl e \<Rightarrow> Inl e
      | Inr st' \<Rightarrow> parse_block_loop config st')"
  by (subst parse_block_loop.simps) (cases "strip (lines st ! current_line st)"; simp add: Let_def)

lemma parse_block_loop_open:
  "current_line st < length (lines st) \<Longrightarrow> startswith (strip (lines st ! current_line st)) ''{'' \<Longrightarrow>
   parse_block_loop config st = parse_block (advance st)"
  by (subst parse_block_loop.simps) (cases "strip (lines st ! current_line st)"; simp add: Let_def)

lemma parse_loop_declaration:
  "current_line st < length (lines st) \<Longrightarrow> startswith (strip (lines st ! current_line st)) ''def'' \<Longrightarrow>
   parse_loop st =
     (case parse_constant_declaration (strip (lines st ! current_line st)) st of
        Inl e \<Rightarrow> Inl e
      | Inr st' \<Rightarrow> parse_loop st')"
  by (subst parse_loop.simps) (cases "strip (lines st ! current_line st)"; simp add: Let_def)

lemma parse_loop_open:
  "current_line st < length (lines st) \<Longrightarrow> startswith (strip (lines st ! current_line st)) ''{'' \<Longrightarrow>
   parse_loop st =
     (case parse_block (advance st) of
        Inl e \<Rightarrow> Inl e
      | Inr (config, st') \<Rightarrow> parse_trailing config st')"
  by (subst parse_loop.simps) (cases "strip (lines st ! current_line st)"; simp add: Let_def)

text \<open>
  C4. Inside a block, at a line that is exactly \<^verbatim>\<open>{\<close>, the block reader calls itself at
  the next line and returns what that call returns: the mapping of the nested block and
  the state it leaves. The entries gathered so far are in neither.
\<close>

theorem anonymous_block_replaces_the_mapping:
  assumes "current_line st < length (lines st)"
    and "strip (lines st ! current_line st) = ''{''"
  shows "parse_block_loop config st = parse_block (advance st) \<and>
         parse_block (advance st) = parse_block_loop [] (advance st)"
  using assms by (simp add: parse_block_loop_open parse_block.simps)

definition anonymous_block_example :: ConfigParser where
  "anonymous_block_example =
     \<lparr>lines = [''{'', ''  a -> 1.'', ''  {'', ''  b -> 2.'', ''}''], current_line = 2,
      constants = []\<rparr>"

theorem anonymous_block_replaces_the_mapping_witness:
  "current_line anonymous_block_example < length (lines anonymous_block_example) \<and>
   strip (lines anonymous_block_example ! current_line anonymous_block_example) = ''{'' \<and>
   parse_block_loop [(''a'', VInt 1)] anonymous_block_example =
     parse_block (advance anonymous_block_example) \<and>
   map_sum id fst (parse_block (advance anonymous_block_example)) = Inr [(''b'', VInt 2)] \<and>
   parse_config ''{\<newline>  a -> 1.\<newline>  {\<newline>  b -> 2.\<newline>}'' = Inr [(''b'', VInt 2)]"
proof -
  have h1: "current_line anonymous_block_example < length (lines anonymous_block_example)"
    by code_simp
  have h2: "strip (lines anonymous_block_example ! current_line anonymous_block_example) = ''{''"
    by code_simp
  have r: "map_sum id fst (parse_block (advance anonymous_block_example)) = Inr [(''b'', VInt 2)]"
    by code_simp
  have p: "parse_config ''{\<newline>  a -> 1.\<newline>  {\<newline>  b -> 2.\<newline>}'' = Inr [(''b'', VInt 2)]"
    by code_simp
  from anonymous_block_replaces_the_mapping [OF h1 h2, of "[(''a'', VInt 1)]"] h1 h2 r p
  show ?thesis by blast
qed


subsection \<open>Lines that start with def\<close>

lemma is_ident_char_def_letters:
  "is_ident_char (CHR ''d'')" "is_ident_char (CHR ''e'')" "is_ident_char (CHR ''f'')"
  by (simp_all add: is_ident_char_def is_ident_start_def)

lemma space_not_ident_char: "is_space c \<Longrightarrow> \<not> is_ident_char c"
  by (auto simp: is_space_def is_ident_char_def is_ident_start_def is_digit_def)

lemma match_ident_arrow: "startswith r ''->'' \<Longrightarrow> match_ident r = None"
  by (cases r) (auto simp: match_ident_def is_ident_start_def)

lemma def_line_head:
  assumes "startswith line ''def''" and "drop 3 line \<noteq> []" and "is_space (hd (drop 3 line))"
  shows "match_ident line = Some (''def'', dropWhile is_space (drop 3 line))"
proof -
  obtain c cs where l: "line = ''def'' @ c # cs"
    using assms(1,2) by (metis startswith_def append_take_drop_id length_Cons list.size(3)
        numeral_3_eq_3 neq_Nil_conv)
  then have c: "is_space c" using assms(3) by simp
  then have n: "\<not> is_ident_char c" by (rule space_not_ident_char)
  have "is_ident_start (CHR ''d'')" by (simp add: is_ident_start_def)
  then show ?thesis
    using l n is_ident_char_def_letters by (simp add: match_ident_def)
qed

lemma def_prefix_is_no_entry:
  assumes "startswith line ''def''"
    and "match_entry line \<noteq> None \<or> match_nested line \<noteq> None"
  shows "match_constant_declaration line = None"
proof (cases "drop 3 line \<noteq> [] \<and> is_space (hd (drop 3 line))")
  case False
  then show ?thesis by (auto simp: match_constant_declaration_def)
next
  case True
  with def_line_head [OF assms(1)]
  have h: "match_ident line = Some (''def'', dropWhile is_space (drop 3 line))" by simp
  from assms(2) h have "startswith (dropWhile is_space (drop 3 line)) ''->''"
    by (auto simp: match_entry_def match_nested_def split: if_splits)
  then have "match_ident (dropWhile is_space (drop 3 line)) = None"
    by (rule match_ident_arrow)
  then show ?thesis by (simp add: match_constant_declaration_def)
qed

text \<open>
  C10. A line whose stripped text starts with \<^verbatim>\<open>def\<close> goes to the declaration parser, in
  the block reader and in the driver alike. When the line has the shape of a mapping entry
  (\<^verbatim>\<open>default -> 1.\<close>), the declaration pattern cannot match it, and the parse fails with
  the message of the invalid constant declaration at that line.
\<close>

theorem def_prefix_goes_to_the_declaration_parser:
  assumes "current_line st < length (lines st)"
    and "line = strip (lines st ! current_line st)"
    and "startswith line ''def''"
  shows "parse_block_loop config st =
           (case parse_constant_declaration line st of
              Inl e \<Rightarrow> Inl e
            | Inr st' \<Rightarrow> parse_block_loop config st') \<and>
         parse_loop st =
           (case parse_constant_declaration line st of
              Inl e \<Rightarrow> Inl e
            | Inr st' \<Rightarrow> parse_loop st') \<and>
         (match_entry line \<noteq> None \<or> match_nested line \<noteq> None \<longrightarrow>
            parse_block_loop config st =
              Inl (ParseError InvalidConstantDeclaration (current_line st + 1)) \<and>
            parse_loop st = Inl (ParseError InvalidConstantDeclaration (current_line st + 1)))"
proof -
  have b: "parse_block_loop config st =
      (case parse_constant_declaration line st of
         Inl e \<Rightarrow> Inl e | Inr st' \<Rightarrow> parse_block_loop config st')"
    using assms by (simp add: parse_block_loop_declaration)
  have d: "parse_loop st =
      (case parse_constant_declaration line st of Inl e \<Rightarrow> Inl e | Inr st' \<Rightarrow> parse_loop st')"
    using assms by (simp add: parse_loop_declaration)
  have "parse_constant_declaration line st =
      Inl (ParseError InvalidConstantDeclaration (current_line st + 1))"
    if "match_entry line \<noteq> None \<or> match_nested line \<noteq> None"
    using def_prefix_is_no_entry [OF assms(3) that]
    by (simp add: parse_constant_declaration.simps)
  with b d show ?thesis by simp
qed

definition default_entry_example :: ConfigParser where
  "default_entry_example =
     \<lparr>lines = [''{'', ''    default -> 1.'', ''}''], current_line = 1, constants = []\<rparr>"

theorem def_prefix_goes_to_the_declaration_parser_witness:
  "current_line default_entry_example < length (lines default_entry_example) \<and>
   ''default -> 1.'' = strip (lines default_entry_example ! current_line default_entry_example) \<and>
   startswith ''default -> 1.'' ''def'' \<and>
   match_entry ''default -> 1.'' = Some (''default'', ''1'') \<and>
   parse_block_loop [] default_entry_example = Inl (ParseError InvalidConstantDeclaration 2) \<and>
   parse_loop default_entry_example = Inl (ParseError InvalidConstantDeclaration 2) \<and>
   parse_config ''{\<newline>    default -> 1.\<newline>}'' = Inl (ParseError InvalidConstantDeclaration 2)"
proof -
  have h1: "current_line default_entry_example < length (lines default_entry_example)"
    by code_simp
  have h2: "''default -> 1.'' =
      strip (lines default_entry_example ! current_line default_entry_example)"
    by code_simp
  have h3: "startswith ''default -> 1.'' ''def''" by code_simp
  have m: "match_entry ''default -> 1.'' = Some (''default'', ''1'')" by code_simp
  have c: "current_line default_entry_example + 1 = 2" by code_simp
  have p: "parse_config ''{\<newline>    default -> 1.\<newline>}'' = Inl (ParseError InvalidConstantDeclaration 2)"
    by code_simp
  have n: "match_entry ''default -> 1.'' \<noteq> None \<or> match_nested ''default -> 1.'' \<noteq> None"
    using m by simp
  from def_prefix_goes_to_the_declaration_parser [OF h1 h2 h3, of "[]"] n
  have "parse_block_loop [] default_entry_example =
          Inl (ParseError InvalidConstantDeclaration (current_line default_entry_example + 1)) \<and>
        parse_loop default_entry_example =
          Inl (ParseError InvalidConstantDeclaration (current_line default_entry_example + 1))"
    by blast
  then have "parse_block_loop [] default_entry_example =
          Inl (ParseError InvalidConstantDeclaration 2) \<and>
        parse_loop default_entry_example = Inl (ParseError InvalidConstantDeclaration 2)"
    unfolding c .
  with h1 h2 h3 m p show ?thesis by blast
qed

subsection \<open>The end of the lines inside a block\<close>

lemma parse_block_loop_blank:
  "\<forall>l \<in> set (drop (current_line st) (lines st)). blank_or_comment l \<Longrightarrow>
   parse_block_loop config st =
     Inr (config, st\<lparr>current_line := max (current_line st) (length (lines st))\<rparr>)"
proof (induction "length (lines st) - current_line st" arbitrary: st)
  case 0
  then have "length (lines st) \<le> current_line st" by simp
  then show ?case by (simp add: parse_block_loop_end at_end_current_line)
next
  case (Suc n)
  then have lt: "current_line st < length (lines st)" by simp
  then have "lines st ! current_line st \<in> set (drop (current_line st) (lines st))"
    by (metis Cons_nth_drop_Suc list.set_intros(1))
  with Suc.prems have b: "blank_or_comment (lines st ! current_line st)" by blast
  have "drop (current_line (advance st)) (lines (advance st)) = tl (drop (current_line st) (lines st))"
    by (simp add: advance_def drop_Suc tl_drop)
  then have rest: "\<forall>l \<in> set (drop (current_line (advance st)) (lines (advance st))). blank_or_comment l"
    using Suc.prems by (metis list.set_sel(2) tl_Nil)
  have n: "n = length (lines (advance st)) - current_line (advance st)"
    using Suc.hyps(2) by (simp add: advance_def)
  have "parse_block_loop config st = parse_block_loop config (advance st)"
    using lt b by (rule parse_block_loop_skip)
  also have "\<dots> = Inr (config, (advance st)\<lparr>current_line :=
      max (current_line (advance st)) (length (lines (advance st)))\<rparr>)"
    by (rule Suc.hyps(1) [OF n rest])
  finally show ?case by (simp add: advance_to_end [OF lt])
qed

text \<open>
  C3 reads: a block that meets the end of the lines before a closing line is a parse
  error. The text below opens a block and never closes it, and \<^verbatim>\<open>parse\<close> returns its
  mapping.
\<close>

theorem unterminated_block_is_no_error:
  "parse_config ''{\<newline>    key1 -> 123.'' = Inr [(''key1'', VInt 123)]"
  by code_simp

text \<open>
  C3, as the code has it. When the block reader meets the end of the lines before a
  closing line (blank lines and comments may still come before the end), it returns the
  mapping gathered so far, with the cursor at the end; no error stands for the missing
  closing line.
\<close>

theorem block_reader_returns_at_the_end_of_the_lines:
  assumes "list_all blank_or_comment (drop (current_line st) (lines st))"
  shows "parse_block_loop config st =
           Inr (config, st\<lparr>current_line := max (current_line st) (length (lines st))\<rparr>)"
  by (rule parse_block_loop_blank) (use assms in \<open>simp add: list_all_iff\<close>)

definition unterminated_example :: ConfigParser where
  "unterminated_example =
     \<lparr>lines = [''{'', ''    key1 -> 123.'', '''', ''*> no closing line''], current_line = 2,
      constants = []\<rparr>"

theorem block_reader_returns_at_the_end_of_the_lines_witness:
  "list_all blank_or_comment
     (drop (current_line unterminated_example) (lines unterminated_example)) \<and>
   map_sum id fst (parse_block_loop [(''key1'', VInt 123)] unterminated_example) =
     Inr [(''key1'', VInt 123)]"
proof -
  have h: "list_all blank_or_comment
      (drop (current_line unterminated_example) (lines unterminated_example))"
    by code_simp
  from block_reader_returns_at_the_end_of_the_lines [OF h, of "[(''key1'', VInt 123)]"] h
  show ?thesis by simp
qed


subsection \<open>After the top-level block\<close>

lemma parse_trailing_scan:
  "parse_trailing config st =
     (let rest = dropWhile blank_or_comment (drop (current_line st) (lines st)) in
      if rest = []
      then Inr (config, st\<lparr>current_line := max (current_line st) (length (lines st))\<rparr>)
      else Inl (ParseError ExpectedEndOfFile (length (lines st) - length rest + 1)))"
proof (induction "length (lines st) - current_line st" arbitrary: st)
  case 0
  then have "length (lines st) \<le> current_line st" by simp
  then show ?case
    by (subst parse_trailing.simps) (simp add: at_end_current_line)
next
  case (Suc n)
  then have lt: "current_line st < length (lines st)" by simp
  have d: "drop (current_line st) (lines st) =
      lines st ! current_line st # drop (current_line (advance st)) (lines (advance st))"
    using lt by (simp add: advance_def Cons_nth_drop_Suc)
  have n: "n = length (lines (advance st)) - current_line (advance st)"
    using Suc.hyps(2) by (simp add: advance_def)
  show ?case
  proof (cases "blank_or_comment (lines st ! current_line st)")
    case True
    then have "parse_trailing config st = parse_trailing config (advance st)"
      using lt by (subst parse_trailing.simps) (simp add: blank_or_comment_def Let_def)
    also note Suc.hyps(1) [OF n]
    finally show ?thesis
      using True d advance_to_end [OF lt] by (simp add: Let_def advance_def)
  next
    case False
    then have "parse_trailing config st =
        Inl (ParseError ExpectedEndOfFile (current_line st + 1))"
      using lt by (subst parse_trailing.simps) (simp add: blank_or_comment_def Let_def)
    moreover have "length (lines st) - length (drop (current_line st) (lines st)) = current_line st"
      using lt by simp
    ultimately show ?thesis using False d by (simp add: Let_def)
  qed
qed

text \<open>
  C7. When the block reader has returned the mapping of the top-level block, the driver
  goes over the lines that remain. The first one that is neither blank nor a comment is
  fatal, with the message of the expected end of file and that line's number; when there
  is none, the driver returns the mapping of the block.
\<close>

theorem content_after_the_block_is_fatal:
  assumes "current_line st < length (lines st)"
    and "startswith (strip (lines st ! current_line st)) ''{''"
    and "parse_block (advance st) = Inr (config, st')"
  shows "parse_loop st =
           (let rest = dropWhile blank_or_comment (drop (current_line st') (lines st')) in
            if rest = []
            then Inr (config, st'\<lparr>current_line := max (current_line st') (length (lines st'))\<rparr>)
            else Inl (ParseError ExpectedEndOfFile (length (lines st') - length rest + 1)))"
  using assms by (simp add: parse_loop_open parse_trailing_scan)

definition trailing_example :: ConfigParser where
  "trailing_example =
     \<lparr>lines = [''{'', ''    key1 -> 1.'', ''}.'', '''', ''*> end'', ''key2 -> 2.''],
      current_line = 0, constants = []\<rparr>"

definition no_trailing_example :: ConfigParser where
  "no_trailing_example =
     \<lparr>lines = [''{'', ''    key1 -> 1.'', ''}.'', '''', ''*> end''],
      current_line = 0, constants = []\<rparr>"


theorem content_after_the_block_is_fatal_witness:
  "current_line trailing_example < length (lines trailing_example) \<and>
   startswith (strip (lines trailing_example ! current_line trailing_example)) ''{'' \<and>
   parse_block (advance trailing_example) =
     Inr ([(''key1'', VInt 1)], trailing_example\<lparr>current_line := 3\<rparr>) \<and>
   parse_loop trailing_example = Inl (ParseError ExpectedEndOfFile 6) \<and>
   current_line no_trailing_example < length (lines no_trailing_example) \<and>
   startswith (strip (lines no_trailing_example ! current_line no_trailing_example)) ''{'' \<and>
   parse_block (advance no_trailing_example) =
     Inr ([(''key1'', VInt 1)], no_trailing_example\<lparr>current_line := 3\<rparr>) \<and>
   parse_loop no_trailing_example =
     Inr ([(''key1'', VInt 1)], no_trailing_example\<lparr>current_line := 5\<rparr>)"
proof -
  have a1: "current_line trailing_example < length (lines trailing_example)"
    by code_simp
  have a2: "startswith (strip (lines trailing_example ! current_line trailing_example)) ''{''"
    by code_simp
  have a3: "parse_block (advance trailing_example) =
      Inr ([(''key1'', VInt 1)], trailing_example\<lparr>current_line := 3\<rparr>)"
    by code_simp
  have a4: "(let rest = dropWhile blank_or_comment
                 (drop (current_line (trailing_example\<lparr>current_line := 3\<rparr>))
                    (lines (trailing_example\<lparr>current_line := 3\<rparr>)))
       in if rest = []
          then Inr ([(''key1'', VInt 1)], trailing_example\<lparr>current_line := 3\<rparr>
                 \<lparr>current_line := max (current_line (trailing_example\<lparr>current_line := 3\<rparr>))
                    (length (lines (trailing_example\<lparr>current_line := 3\<rparr>)))\<rparr>)
          else Inl (ParseError ExpectedEndOfFile
                 (length (lines (trailing_example\<lparr>current_line := 3\<rparr>)) - length rest + 1)))
      = Inl (ParseError ExpectedEndOfFile 6)"
    by code_simp
  have b1: "current_line no_trailing_example < length (lines no_trailing_example)"
    by code_simp
  have b2: "startswith (strip (lines no_trailing_example ! current_line no_trailing_example)) ''{''"
    by code_simp
  have b3: "parse_block (advance no_trailing_example) =
      Inr ([(''key1'', VInt 1)], no_trailing_example\<lparr>current_line := 3\<rparr>)"
    by code_simp
  have b4: "(let rest = dropWhile blank_or_comment
                 (drop (current_line (no_trailing_example\<lparr>current_line := 3\<rparr>))
                    (lines (no_trailing_example\<lparr>current_line := 3\<rparr>)))
       in if rest = []
          then Inr ([(''key1'', VInt 1)], no_trailing_example\<lparr>current_line := 3\<rparr>
                 \<lparr>current_line := max (current_line (no_trailing_example\<lparr>current_line := 3\<rparr>))
                    (length (lines (no_trailing_example\<lparr>current_line := 3\<rparr>)))\<rparr>)
          else Inl (ParseError ExpectedEndOfFile
                 (length (lines (no_trailing_example\<lparr>current_line := 3\<rparr>)) - length rest + 1)))
      = Inr ([(''key1'', VInt 1)], no_trailing_example\<lparr>current_line := 5\<rparr>)"
    by code_simp
  have t: "parse_loop trailing_example = Inl (ParseError ExpectedEndOfFile 6)"
    using content_after_the_block_is_fatal [OF a1 a2 a3] unfolding a4 .
  have n: "parse_loop no_trailing_example =
      Inr ([(''key1'', VInt 1)], no_trailing_example\<lparr>current_line := 5\<rparr>)"
    using content_after_the_block_is_fatal [OF b1 b2 b3] unfolding b4 .
  from a1 a2 a3 t b1 b2 b3 n show ?thesis by blast
qed


subsection \<open>References to constants\<close>








subsection \<open>Numeric literals\<close>











subsection \<open>Inline mapping literals\<close>

text \<open>
  C1. A value token that starts with \<^verbatim>\<open>{\<close> and ends with \<^verbatim>\<open>}\<close> is parsed by the block
  reader on a new parser state: the lines are the text between the braces, the cursor is
  at 0 and the table of constants is that of the enclosing state. The state the sub-parse
  leaves is dropped. An entry with such a value returns the enclosing state as it was, and
  a declaration with such a value adds its own name to the enclosing table and nothing
  else: what the literal declares inside is in neither.
\<close>

theorem inline_literal_runs_on_a_copy:
  assumes "startswith v ''{''" and "endswith v ''}''"
  shows "parse_value st v =
           (case parse_block \<lparr>lines = split_nl (strip (slice_1_1 v)), current_line = 0,
                              constants = constants st\<rparr> of
              Inl e \<Rightarrow> Inl e
            | Inr (nested_config, nested_parser) \<Rightarrow> Inr (VMapping nested_config)) \<and>
         (\<forall>line key tok current_dict current_dict' st'.
            match_entry line = Some (key, tok) \<and> strip tok = v \<and>
            parse_entry current_dict line st = Inr (current_dict', st') \<longrightarrow> st' = st) \<and>
         (\<forall>line name tok st'.
            match_constant_declaration line = Some (name, tok) \<and> strip tok = v \<and>
            parse_constant_declaration line st = Inr st' \<longrightarrow>
            (\<exists>nested_config.
               parse_value st v = Inr (VMapping nested_config) \<and>
               constants st' = AList.update name (VMapping nested_config) (constants st)))"
proof -
  have n: "\<not> startswith v ''[[''"
    using assms(1) by (cases v) (auto simp: startswith_def)
  have v: "parse_value st v =
      (case parse_block \<lparr>lines = split_nl (strip (slice_1_1 v)), current_line = 0,
                         constants = constants st\<rparr> of
         Inl e \<Rightarrow> Inl e
       | Inr (nested_config, nested_parser) \<Rightarrow> Inr (VMapping nested_config))"
    using assms n by (simp add: parse_value.simps parse_dict.simps Let_def)
  have e: "st' = st"
    if "match_entry line = Some (key, tok) \<and> strip tok = v \<and>
        parse_entry current_dict line st = Inr (current_dict', st')"
    for line key tok current_dict current_dict' st'
    using that by (auto simp: parse_entry.simps split: sum.splits)
  have d: "\<exists>nested_config.
       parse_value st v = Inr (VMapping nested_config) \<and>
       constants st' = AList.update name (VMapping nested_config) (constants st)"
    if "match_constant_declaration line = Some (name, tok) \<and> strip tok = v \<and>
        parse_constant_declaration line st = Inr st'"
    for line name tok st'
  proof -
    from that obtain x where x: "parse_value st v = Inr x"
      and s: "st' = advance (st\<lparr>constants := AList.update name x (constants st)\<rparr>)"
      by (auto simp: parse_constant_declaration.simps split: sum.splits)
    from x v obtain nested_config where "x = VMapping nested_config"
      by (auto split: sum.splits prod.splits)
    with x s show ?thesis by (auto simp: advance_def)
  qed
  from v e d show ?thesis by blast
qed


definition inline_example :: ConfigParser where
  "inline_example =
     \<lparr>lines = [''def Y = 7;'', ''{'', ''    a -> { def X = |Y|; }.'', ''    b -> |X|.'', ''}''],
      current_line = 2, constants = [(''Y'', VInt 7)]\<rparr>"

theorem inline_literal_runs_on_a_copy_witness:
  "startswith ''{ def X = |Y|; }'' ''{'' \<and> endswith ''{ def X = |Y|; }'' ''}'' \<and>
   parse_block \<lparr>lines = split_nl (strip (slice_1_1 ''{ def X = |Y|; }'')), current_line = 0,
                 constants = constants inline_example\<rparr> =
     Inr ([], \<lparr>lines = [''def X = |Y|;''], current_line = 1,
               constants = [(''Y'', VInt 7), (''X'', VInt 7)]\<rparr>) \<and>
   parse_value inline_example ''{ def X = |Y|; }'' = Inr (VMapping []) \<and>
   match_entry ''a -> { def X = |Y|; }.'' = Some (''a'', ''{ def X = |Y|; }'') \<and>
   strip ''{ def X = |Y|; }'' = ''{ def X = |Y|; }'' \<and>
   parse_entry [] ''a -> { def X = |Y|; }.'' inline_example =
     Inr ([(''a'', VMapping [])], inline_example) \<and>
   parse_value inline_example ''|X|'' = Inl (ParseError (UndefinedConstant ''X'') 3) \<and>
   parse_config ''def Y = 7;\<newline>{\<newline>    a -> { def X = |Y|; }.\<newline>    b -> |X|.\<newline>}'' =
     Inl (ParseError (UndefinedConstant ''X'') 4)"
proof -
  let ?v = "''{ def X = |Y|; }''"
  have h: "startswith ?v ''{''" "endswith ?v ''}''" by code_simp+
  have b: "parse_block \<lparr>lines = split_nl (strip (slice_1_1 ?v)), current_line = 0,
                 constants = constants inline_example\<rparr> =
     Inr ([], \<lparr>lines = [''def X = |Y|;''], current_line = 1,
               constants = [(''Y'', VInt 7), (''X'', VInt 7)]\<rparr>)"
    by code_simp
  have m: "match_entry ''a -> { def X = |Y|; }.'' = Some (''a'', ?v)" by code_simp
  have s: "strip ?v = ?v" by code_simp
  have e: "parse_entry [] ''a -> { def X = |Y|; }.'' inline_example =
      Inr ([(''a'', VMapping [])], inline_example)"
    by code_simp
  have u: "parse_value inline_example ''|X|'' = Inl (ParseError (UndefinedConstant ''X'') 3)"
    by code_simp
  have p: "parse_config ''def Y = 7;\<newline>{\<newline>    a -> { def X = |Y|; }.\<newline>    b -> |X|.\<newline>}'' =
      Inl (ParseError (UndefinedConstant ''X'') 4)"
    by code_simp
  note t = inline_literal_runs_on_a_copy [OF h, of inline_example]
  from t b have r: "parse_value inline_example ?v = Inr (VMapping [])" by simp
  from h b r m s e u p show ?thesis by blast
qed

end
